theory Spec2Isabelle
  imports Complex_Main "HOL-Library.Log_Nat"
begin

section \<open>The program: mandelbrot.c\<close>

text \<open>
  A shallow embedding of \<^verbatim>\<open>src/mandelbrot.c\<close>: the stability predicate \<^verbatim>\<open>is_stable\<close>,
  the grid generator \<^verbatim>\<open>fill_array\<close>, the renderer \<^verbatim>\<open>print_chart\<close>, the StarPU kernel
  \<^verbatim>\<open>cpu_func\<close> with its codelet \<^verbatim>\<open>cl\<close>, and \<^verbatim>\<open>main\<close>.
\<close>

subsection \<open>Compile-time constants\<close>

definition ROWS :: nat where
  "ROWS = 63"

definition COLS :: nat where
  "COLS = 100"

definition ITER :: int where
  "ITER = 2000"

subsection \<open>The arithmetic of \<^verbatim>\<open>double\<close> and \<^verbatim>\<open>double complex\<close>\<close>

text \<open>
  The C program computes on \<^verbatim>\<open>double\<close> and \<^verbatim>\<open>double complex\<close>. Their operations round,
  overflow and produce NaN as the platform defines, so the model does not fix them: every
  function below takes the operations it uses as a record, \<open>'d\<close> standing for \<^verbatim>\<open>double\<close>
  and \<open>'c\<close> for \<^verbatim>\<open>double complex\<close>, and every operator of the source is one application of
  a field. Whatever is proved for every such record holds for a platform that evaluates
  each operator on its own, whatever its rounding.
  \<^item> \<open>d_lit q\<close>: the \<^verbatim>\<open>double\<close> constant written as the decimal \<open>q\<close> in the source;
  \<^item> \<open>d_of_int\<close>: the conversion of an \<^verbatim>\<open>int\<close> operand to \<^verbatim>\<open>double\<close>;
  \<^item> \<open>d_add\<close>, \<open>d_sub\<close>, \<open>d_mul\<close>, \<open>d_div\<close>, \<open>d_le\<close>: \<^verbatim>\<open>+ - * / <=\<close> on \<^verbatim>\<open>double\<close>;
  \<^item> \<open>c_of_int\<close>: the conversion of an \<^verbatim>\<open>int\<close> to \<^verbatim>\<open>double complex\<close> (\<^verbatim>\<open>z = 0\<close>);
  \<^item> \<open>c_I\<close>: the macro \<^verbatim>\<open>I\<close> of \<^verbatim>\<open>complex.h\<close>;
  \<^item> \<open>c_add\<close>, \<open>c_mul\<close>: \<^verbatim>\<open>+\<close> and \<^verbatim>\<open>*\<close> on two \<^verbatim>\<open>double complex\<close> operands;
  \<^item> \<open>dc_add\<close>, \<open>dc_mul\<close>: \<^verbatim>\<open>+\<close> and \<^verbatim>\<open>*\<close> with a \<^verbatim>\<open>double\<close> left operand and a complex
    right operand;
  \<^item> \<open>c_abs\<close>: \<^verbatim>\<open>cabs\<close>.
\<close>

record ('d, 'c) arith =
  d_lit :: "rat \<Rightarrow> 'd"
  d_of_int :: "int \<Rightarrow> 'd"
  d_add :: "'d \<Rightarrow> 'd \<Rightarrow> 'd"
  d_sub :: "'d \<Rightarrow> 'd \<Rightarrow> 'd"
  d_mul :: "'d \<Rightarrow> 'd \<Rightarrow> 'd"
  d_div :: "'d \<Rightarrow> 'd \<Rightarrow> 'd"
  d_le :: "'d \<Rightarrow> 'd \<Rightarrow> bool"
  c_of_int :: "int \<Rightarrow> 'c"
  c_I :: "'c"
  c_add :: "'c \<Rightarrow> 'c \<Rightarrow> 'c"
  c_mul :: "'c \<Rightarrow> 'c \<Rightarrow> 'c"
  dc_add :: "'d \<Rightarrow> 'c \<Rightarrow> 'c"
  dc_mul :: "'d \<Rightarrow> 'c \<Rightarrow> 'c"
  c_abs :: "'c \<Rightarrow> 'd"

text \<open>
  The exact arithmetic of the real and complex numbers is one such record; it is the
  instance at which theorems are evaluated on concrete inputs.
\<close>

definition exact_arith :: "(real, complex) arith" where
  "exact_arith =
     \<lparr> d_lit = of_rat, d_of_int = of_int,
       d_add = (+), d_sub = (-), d_mul = (*), d_div = (/), d_le = (\<le>),
       c_of_int = of_int, c_I = \<i>, c_add = (+), c_mul = (*),
       dc_add = (\<lambda>x z. complex_of_real x + z),
       dc_mul = (\<lambda>x z. complex_of_real x * z),
       c_abs = cmod \<rparr>"

subsection \<open>Binary64 arithmetic\<close>

text \<open>
  IEEE 754 binary64 on the finite values, each a rational number: \<open>round64 q\<close> is the
  double nearest to \<open>q\<close>, ties going to the even significand. \<open>ilog2 q\<close> is the binary
  exponent of a non-zero \<open>q\<close>, the integer \<open>p\<close> with \<open>2 ^ p \<le> \<bar>q\<bar> < 2 ^ (p + 1)\<close>, found from the bit lengths of numerator
  and denominator; the significand has 53 bits, so the unit in the last place is
  \<open>2 ^ e\<close> with \<open>e = ilog2 q - 52\<close>, and never below \<open>2 ^ (-1074)\<close>, the spacing of the subnormal
  numbers. Overflow to infinity, NaN and the sign of zero are outside this model; the
  values of the grid lie between \<open>-2\<close> and \<open>1.5\<close>.
\<close>

definition pow2 :: "int \<Rightarrow> rat" where
  "pow2 e = (if 0 \<le> e then 2 ^ nat e else 1 / 2 ^ nat (- e))"

definition rne :: "rat \<Rightarrow> int" where
  "rne x =
     (let f = \<lfloor>x\<rfloor>; d = x - of_int f
      in if d < 1 / 2 then f else if 1 / 2 < d then f + 1 else if even f then f else f + 1)"

definition ilog2 :: "rat \<Rightarrow> int" where
  "ilog2 q =
     (let (a, b) = quotient_of \<bar>q\<bar>; p = bitlen a - bitlen b
      in if \<bar>q\<bar> < pow2 p then p - 1 else p)"

definition round64 :: "rat \<Rightarrow> rat" where
  "round64 q =
     (if q = 0 then 0
      else let e = max (ilog2 q - 52) (- 1074)
           in of_int (rne (q / pow2 e)) * pow2 e)"

text \<open>
  The arithmetic in which every operator rounds its exact result on its own. A
  \<^verbatim>\<open>double complex\<close> is the pair of its parts; a \<^verbatim>\<open>double\<close> operand of \<^verbatim>\<open>+\<close> or \<^verbatim>\<open>*\<close> acts
  on the parts of the complex one (\<^verbatim>\<open>x * I\<close> has the parts \<open>x * 0\<close> and \<open>x * 1\<close>, and
  \<^verbatim>\<open>x + z\<close> keeps the imaginary part of \<open>z\<close>). \<^verbatim>\<open>cabs\<close> is a library function whose rounding
  the C standard leaves open: it stays a parameter.
\<close>

definition binary64 :: "(rat \<times> rat \<Rightarrow> rat) \<Rightarrow> (rat, rat \<times> rat) arith" where
  "binary64 cabs =
     \<lparr> d_lit = round64,
       d_of_int = (\<lambda>n. round64 (of_int n)),
       d_add = (\<lambda>x y. round64 (x + y)),
       d_sub = (\<lambda>x y. round64 (x - y)),
       d_mul = (\<lambda>x y. round64 (x * y)),
       d_div = (\<lambda>x y. round64 (x / y)),
       d_le = (\<le>),
       c_of_int = (\<lambda>n. (round64 (of_int n), 0)),
       c_I = (0, 1),
       c_add = (\<lambda>(a, b) (c, d). (round64 (a + c), round64 (b + d))),
       c_mul = (\<lambda>(a, b) (c, d).
                  (round64 (round64 (a * c) - round64 (b * d)),
                   round64 (round64 (a * d) + round64 (b * c)))),
       dc_add = (\<lambda>x (c, d). (round64 (x + c), d)),
       dc_mul = (\<lambda>x (c, d). (round64 (x * c), round64 (x * d))),
       c_abs = cabs \<rparr>"

text \<open>
  The same arithmetic on a platform that contracts \<^verbatim>\<open>a + j * b\<close> into a fused
  multiply-add: the product is not rounded, only the sum is. In \<open>fill_array\<close> every
  product is the operand of such a sum.
\<close>

definition binary64_fused :: "(rat \<times> rat \<Rightarrow> rat) \<Rightarrow> (rat, rat \<times> rat) arith" where
  "binary64_fused cabs = (binary64 cabs) \<lparr> d_mul := (*) \<rparr>"

subsection \<open>\<^verbatim>\<open>is_stable\<close>\<close>

text \<open>
  \<^verbatim>\<open>for (int i = 0; i < iter; i++) { z = z * z + c; }\<close> as a recursion on the loop state
  \<open>(i, z)\<close>. The counter stays below \<open>iter\<close>, an \<^verbatim>\<open>int\<close>, so \<^verbatim>\<open>i++\<close> never overflows.
\<close>

function is_stable_loop :: "('d, 'c) arith \<Rightarrow> 'c \<Rightarrow> int \<Rightarrow> int \<Rightarrow> 'c \<Rightarrow> 'c" where
  "is_stable_loop A c iter i z =
     (if i < iter then is_stable_loop A c iter (i + 1) (c_add A (c_mul A z z) c) else z)"
  by pat_completeness auto
termination
  by (relation "measure (\<lambda>(A, c, iter, i, z). nat (iter - i))") auto

declare is_stable_loop.simps [simp del]

definition is_stable :: "('d, 'c) arith \<Rightarrow> 'c \<Rightarrow> int \<Rightarrow> int" where
  "is_stable A c iter =
     (let z = is_stable_loop A c iter 0 (c_of_int A 0)
      in if d_le A (c_abs A z) (d_lit A 2) then 1 else 0)"

subsection \<open>Arrays\<close>

text \<open>
  A C array of \<open>n\<close> cells is a list of length \<open>n\<close>. Reading or writing outside the array
  is undefined behaviour in C; the model makes it the fault \<open>Out_Of_Bounds\<close>, so that a
  function returning \<open>Inr\<close> is known to have stayed inside its arrays. \<open>Arg_Overrun\<close> is
  the fault of copying a packed task argument over an object of another type and size.
\<close>

datatype fault = Out_Of_Bounds | Arg_Overrun

definition load :: "'a list \<Rightarrow> nat \<Rightarrow> fault + 'a" where
  "load a k = (if k < length a then Inr (a ! k) else Inl Out_Of_Bounds)"

definition store :: "'a list \<Rightarrow> nat \<Rightarrow> 'a \<Rightarrow> fault + 'a list" where
  "store a k v = (if k < length a then Inr (a[k := v]) else Inl Out_Of_Bounds)"

subsection \<open>\<^verbatim>\<open>fill_array\<close>\<close>

text \<open>
  The inner loop over \<open>j\<close> and the outer loop over \<open>i\<close>, each a recursion on its counter;
  the array is passed through. \<^verbatim>\<open>j * real_step\<close> converts the \<^verbatim>\<open>int\<close> \<open>j\<close> to \<^verbatim>\<open>double\<close>,
  and \<^verbatim>\<open>COLS - 1\<close> is computed on \<^verbatim>\<open>int\<close> before its conversion.
\<close>

function fill_array_cols ::
  "('d, 'c) arith \<Rightarrow> 'd \<Rightarrow> 'd \<Rightarrow> 'd \<Rightarrow> 'd \<Rightarrow> nat \<Rightarrow> nat \<Rightarrow> 'c list \<Rightarrow> fault + 'c list" where
  "fill_array_cols A real_start real_step imag_start imag_step i j array =
     (if j < COLS then
        (let real_part = d_add A real_start (d_mul A (d_of_int A (int j)) real_step);
             imag_part = d_add A imag_start (d_mul A (d_of_int A (int i)) imag_step)
         in case store array (i * COLS + j) (dc_add A real_part (dc_mul A imag_part (c_I A))) of
              Inl e \<Rightarrow> Inl e
            | Inr array' \<Rightarrow>
                fill_array_cols A real_start real_step imag_start imag_step i (j + 1) array')
      else Inr array)"
  by pat_completeness auto
termination
  by (relation "measure (\<lambda>(A, rs, rst, is, ist, i, j, array). COLS - j)") auto

declare fill_array_cols.simps [simp del]

function fill_array_rows ::
  "('d, 'c) arith \<Rightarrow> 'd \<Rightarrow> 'd \<Rightarrow> 'd \<Rightarrow> 'd \<Rightarrow> nat \<Rightarrow> 'c list \<Rightarrow> fault + 'c list" where
  "fill_array_rows A real_start real_step imag_start imag_step i array =
     (if i < ROWS then
        (case fill_array_cols A real_start real_step imag_start imag_step i 0 array of
           Inl e \<Rightarrow> Inl e
         | Inr array' \<Rightarrow>
             fill_array_rows A real_start real_step imag_start imag_step (i + 1) array')
      else Inr array)"
  by pat_completeness auto
termination
  by (relation "measure (\<lambda>(A, rs, rst, is, ist, i, array). ROWS - i)") auto

declare fill_array_rows.simps [simp del]

definition fill_array :: "('d, 'c) arith \<Rightarrow> 'c list \<Rightarrow> fault + 'c list" where
  "fill_array A array =
     (let real_start = d_lit A (- 2);
          real_end = d_lit A (1 / 2);
          imag_start = d_lit A (- (3 / 2));
          imag_end = d_lit A (3 / 2);
          real_step = d_div A (d_sub A real_end real_start) (d_of_int A (int COLS - 1));
          imag_step = d_div A (d_sub A imag_end imag_start) (d_of_int A (int ROWS - 1))
      in fill_array_rows A real_start real_step imag_start imag_step 0 array)"

subsection \<open>\<^verbatim>\<open>print_chart\<close>\<close>

text \<open>
  Standard output is the string printed so far; each \<^verbatim>\<open>printf\<close> appends to it. The cells
  are C \<^verbatim>\<open>int\<close>s, tested for being non-zero.
\<close>

function print_chart_cols :: "int list \<Rightarrow> nat \<Rightarrow> nat \<Rightarrow> string \<Rightarrow> fault + string" where
  "print_chart_cols array i j out =
     (if j < COLS then
        (case load array (i * COLS + j) of
           Inl e \<Rightarrow> Inl e
         | Inr v \<Rightarrow>
             print_chart_cols array i (j + 1) (out @ (if v \<noteq> 0 then ''.'' else '' '')))
      else Inr out)"
  by pat_completeness auto
termination
  by (relation "measure (\<lambda>(array, i, j, out). COLS - j)") auto

declare print_chart_cols.simps [simp del]

function print_chart_rows :: "int list \<Rightarrow> nat \<Rightarrow> string \<Rightarrow> fault + string" where
  "print_chart_rows array i out =
     (if i < ROWS then
        (case print_chart_cols array i 0 out of
           Inl e \<Rightarrow> Inl e
         | Inr out' \<Rightarrow> print_chart_rows array (i + 1) (out' @ [CHR 0x0A]))
      else Inr out)"
  by pat_completeness auto
termination
  by (relation "measure (\<lambda>(array, i, out). ROWS - i)") auto

declare print_chart_rows.simps [simp del]

definition print_chart :: "int list \<Rightarrow> string \<Rightarrow> fault + string" where
  "print_chart array out = print_chart_rows array 0 out"

subsection \<open>The StarPU task interface\<close>

text \<open>
  StarPU is a library outside the repository. The model keeps what the program hands to it
  and what the kernel gets back, following the library's documented interface:
  \<^item> the access modes of \<^verbatim>\<open>enum starpu_data_access_mode\<close>;
  \<^item> a codelet, with its number of buffers and their declared modes (the kernel pointer
    \<^verbatim>\<open>cpu_funcs\<close> is not kept: the model runs \<open>cpu_func\<close> directly);
  \<^item> a \<^verbatim>\<open>STARPU_VALUE\<close> argument, copied by value with the size given for it:
    \<open>Value_complex\<close> for one given with \<^verbatim>\<open>sizeof(double complex)\<close>, \<open>Value_int\<close> for one
    given with \<^verbatim>\<open>sizeof(int)\<close>;
  \<^item> a task, as \<^verbatim>\<open>starpu_task_insert\<close> builds it: the codelet, the \<open>(mode, handle)\<close> pairs
    and the \<^verbatim>\<open>STARPU_VALUE\<close> arguments in the order given;
  \<^item> \<^verbatim>\<open>starpu_codelet_unpack_args(cl_arg, p1, ..., pn)\<close>, which copies the packed arguments
    into \<open>p1, ..., pn\<close> in packing order. The function keeps no cursor between calls:
    every call starts again at the first packed argument, so a call with \<open>n\<close> pointers
    hands back the first \<open>n\<close> packed values. (The library reads pointers until it meets a
    null one or has served every packed argument; the model stops at the pointers given.)
\<close>

datatype starpu_data_access_mode = STARPU_NONE | STARPU_R | STARPU_W | STARPU_RW

type_synonym starpu_data_handle_t = nat

datatype 'c starpu_value = Value_complex 'c | Value_int int

record starpu_codelet =
  nbuffers :: nat
  modes :: "starpu_data_access_mode list"

record 'c starpu_task =
  task_cl :: starpu_codelet
  task_buffers :: "(starpu_data_access_mode \<times> starpu_data_handle_t) list"
  task_cl_arg :: "'c starpu_value list"

definition starpu_task_insert ::
  "starpu_codelet \<Rightarrow> (starpu_data_access_mode \<times> starpu_data_handle_t) list \<Rightarrow>
   'c starpu_value list \<Rightarrow> 'c starpu_task" where
  "starpu_task_insert codelet buffers vals =
     \<lparr> task_cl = codelet, task_buffers = buffers, task_cl_arg = vals \<rparr>"

definition starpu_codelet_unpack_args :: "'c starpu_value list \<Rightarrow> nat \<Rightarrow> 'c starpu_value list" where
  "starpu_codelet_unpack_args cl_arg n = take n cl_arg"

subsection \<open>\<^verbatim>\<open>cpu_func\<close> and the codelet \<^verbatim>\<open>cl\<close>\<close>

text \<open>
  \<^verbatim>\<open>cpu_func\<close> calls \<^verbatim>\<open>starpu_codelet_unpack_args\<close> twice, each time with one pointer:
  first \<^verbatim>\<open>&c\<close>, then \<^verbatim>\<open>&i\<close>. Each call hands back the first packed value. The first call
  fills the \<^verbatim>\<open>double complex c\<close>; the second copies the same packed value over the
  \<^verbatim>\<open>int i\<close>, which is the fault \<open>Arg_Overrun\<close> unless that value is an \<^verbatim>\<open>int\<close>. \<open>val\<close> is the
  vector behind \<^verbatim>\<open>buffers[0]\<close>; the function returns it updated. \<^verbatim>\<open>is_stable\<close> is called
  twice with the same arguments, the first result (\<open>r\<close>) being unused.
\<close>

definition cpu_func :: "('d, 'c) arith \<Rightarrow> int list \<Rightarrow> 'c starpu_value list \<Rightarrow> fault + int list" where
  "cpu_func A val cl_arg =
     (case starpu_codelet_unpack_args cl_arg 1 of
        [Value_complex c] \<Rightarrow>
          (case starpu_codelet_unpack_args cl_arg 1 of
             [Value_int i] \<Rightarrow>
               (let r = is_stable A c ITER
                in if 0 \<le> i then store val (nat i) (is_stable A c ITER) else Inl Out_Of_Bounds)
           | _ \<Rightarrow> Inl Arg_Overrun)
      | _ \<Rightarrow> Inl Arg_Overrun)"

definition cl :: starpu_codelet where
  "cl = \<lparr> nbuffers = 1, modes = [STARPU_R] \<rparr>"

subsection \<open>\<^verbatim>\<open>main\<close>\<close>

text \<open>
  The submission loop of \<^verbatim>\<open>main\<close>: for \<open>i\<close> from 0 below \<^verbatim>\<open>ROWS * COLS\<close>, read
  \<^verbatim>\<open>matrix[i]\<close> and insert one task carrying the value and \<open>i\<close>. The tasks are collected in
  submission order.
\<close>

definition matrix_handle :: starpu_data_handle_t where
  "matrix_handle = 0"

function submit_tasks :: "'c list \<Rightarrow> nat \<Rightarrow> 'c starpu_task list \<Rightarrow> fault + 'c starpu_task list" where
  "submit_tasks matrix i tasks =
     (if i < ROWS * COLS then
        (case load matrix i of
           Inl e \<Rightarrow> Inl e
         | Inr c \<Rightarrow>
             submit_tasks matrix (i + 1)
               (tasks @ [starpu_task_insert cl [(STARPU_R, matrix_handle)]
                           [Value_complex c, Value_int (int i)]]))
      else Inr tasks)"
  by pat_completeness auto
termination
  by (relation "measure (\<lambda>(matrix, i, tasks). ROWS * COLS - i)") auto

declare submit_tasks.simps [simp del]

text \<open>
  One admissible behaviour of the task runtime between submission and the return of
  \<^verbatim>\<open>starpu_task_wait_for_all\<close>: a single worker runs the kernel of every task once, in
  submission order, on the registered vector.
\<close>

fun run_tasks :: "('d, 'c) arith \<Rightarrow> 'c starpu_task list \<Rightarrow> int list \<Rightarrow> fault + int list" where
  "run_tasks A [] val = Inr val"
| "run_tasks A (t # ts) val =
     (case cpu_func A val (task_cl_arg t) of
        Inl e \<Rightarrow> Inl e
      | Inr val' \<Rightarrow> run_tasks A ts val')"

text \<open>
  \<^verbatim>\<open>main\<close>. The two \<^verbatim>\<open>malloc\<close> calls are inputs: \<open>None\<close> is a \<^verbatim>\<open>NULL\<close> result, \<open>Some g\<close> a
  block of \<^verbatim>\<open>ROWS * COLS\<close> cells whose cell \<open>k\<close> holds \<open>g k\<close> before it is written. The task
  runtime is an input too: applied to the tasks submitted and to the vector as allocated,
  \<open>runtime\<close> gives what the registered vector holds when \<^verbatim>\<open>starpu_task_wait_for_all\<close> has
  returned, or a fault. Initialising and shutting down StarPU, registering and
  unregistering the vector and freeing the two blocks leave no trace in what the model
  observes: the exit status, what was printed on standard output, and the \<^verbatim>\<open>perror\<close>
  prefixes sent to standard error.
\<close>

record process_result =
  exit_status :: int
  stdout :: string
  stderr :: "string list"

definition main ::
  "('d, 'c) arith \<Rightarrow> (nat \<Rightarrow> 'c) option \<Rightarrow> (nat \<Rightarrow> int) option \<Rightarrow>
   ('c starpu_task list \<Rightarrow> int list \<Rightarrow> fault + int list) \<Rightarrow> fault + process_result" where
  "main A matrix_alloc mask_alloc runtime =
     (case matrix_alloc of
        None \<Rightarrow> Inr \<lparr> exit_status = 1, stdout = [], stderr = [''malloc''] \<rparr>
      | Some g \<Rightarrow>
          (case mask_alloc of
             None \<Rightarrow> Inr \<lparr> exit_status = 1, stdout = [], stderr = [''malloc''] \<rparr>
           | Some h \<Rightarrow>
               (case fill_array A (map g [0..<ROWS * COLS]) of
                  Inl e \<Rightarrow> Inl e
                | Inr matrix \<Rightarrow>
                    (case submit_tasks matrix 0 [] of
                       Inl e \<Rightarrow> Inl e
                     | Inr tasks \<Rightarrow>
                         (case runtime tasks (map h [0..<ROWS * COLS]) of
                            Inl e \<Rightarrow> Inl e
                          | Inr mask' \<Rightarrow>
                              (case print_chart mask' [] of
                                 Inl e \<Rightarrow> Inl e
                               | Inr out \<Rightarrow>
                                   Inr \<lparr> exit_status = 0, stdout = out, stderr = [] \<rparr>))))))"

subsection \<open>Notions of the specification\<close>

text \<open>
  The value the specification gives to the cell in row \<open>row\<close> and column \<open>col\<close>:
  \<open>(real_start + col * real_step) + (imag_start + row * imag_step) * i\<close>, with
  \<open>real_step = (0.5 - (-2.0)) / (COLS - 1)\<close> and \<open>imag_step = (1.5 - (-1.5)) / (ROWS - 1)\<close>.
  It is written from the specification's sentence, to be compared with what
  \<open>fill_array\<close> stores.
\<close>

definition grid_point :: "('d, 'c) arith \<Rightarrow> nat \<Rightarrow> nat \<Rightarrow> 'c" where
  "grid_point A row col =
     dc_add A
       (d_add A (d_lit A (- 2))
          (d_mul A (d_of_int A (int col))
             (d_div A (d_sub A (d_lit A (1 / 2)) (d_lit A (- 2))) (d_of_int A (int COLS - 1)))))
       (dc_mul A
          (d_add A (d_lit A (- (3 / 2)))
             (d_mul A (d_of_int A (int row))
                (d_div A (d_sub A (d_lit A (3 / 2)) (d_lit A (- (3 / 2))))
                   (d_of_int A (int ROWS - 1)))))
          (c_I A))"

text \<open>
  The Result Buffer index a Task Descriptor names: the \<^verbatim>\<open>int\<close> packed second, after the
  cell value.
\<close>

definition named_index :: "'c starpu_task \<Rightarrow> int option" where
  "named_index t =
     (case task_cl_arg t of
        [Value_complex c, Value_int i] \<Rightarrow> Some i
      | _ \<Rightarrow> None)"

section \<open>Properties\<close>

subsection \<open>The stability predicate\<close>

lemma is_stable_loop_funpow:
  "is_stable_loop A c iter i z =
     ((\<lambda>z. c_add A (c_mul A z z) c) ^^ nat (iter - i)) z"
proof (induction A c iter i z rule: is_stable_loop.induct)
  case (1 A c iter i z)
  show ?case
  proof (cases "i < iter")
    case True
    then have n: "nat (iter - i) = Suc (nat (iter - (i + 1)))"
      by simp
    from True have "is_stable_loop A c iter i z =
        is_stable_loop A c iter (i + 1) (c_add A (c_mul A z z) c)"
      by (simp add: is_stable_loop.simps [of A c iter i z])
    also have "\<dots> = ((\<lambda>z. c_add A (c_mul A z z) c) ^^ nat (iter - (i + 1)))
        (c_add A (c_mul A z z) c)"
      using True by (rule "1.IH")
    also have "\<dots> = ((\<lambda>z. c_add A (c_mul A z z) c) ^^ nat (iter - i)) z"
      by (simp only: n funpow_Suc_right o_apply)
    finally show ?thesis .
  next
    case False
    then show ?thesis
      by (simp add: is_stable_loop.simps [of A c iter i z])
  qed
qed

text \<open>
  C4. For every input \<open>c\<close> and iteration bound \<open>k > 0\<close>, \<open>is_stable\<close> starts from the zero
  value, applies \<open>z \<leftarrow> z * z + c\<close> exactly \<open>k\<close> times, whatever the intermediate values
  are, and answers 1 (stable) exactly when \<open>cabs\<close> of the final \<open>z\<close> is \<open>\<le> 2.0\<close>, 0
  otherwise. The result is a function of \<open>c\<close> and \<open>k\<close> (and of the arithmetic) alone.
\<close>

theorem C4_is_stable_fixed_iteration:
  assumes "0 < k"
  shows "is_stable A c k =
     (if d_le A (c_abs A (((\<lambda>z. c_add A (c_mul A z z) c) ^^ nat k) (c_of_int A 0))) (d_lit A 2)
      then 1 else 0)"
  by (simp add: is_stable_def is_stable_loop_funpow)

theorem C4_is_stable_fixed_iteration_witness:
  "(0::int) < 2 \<and> is_stable exact_arith 1 2 = 1 \<and> is_stable exact_arith 1 3 = 0"
proof -
  have a: "is_stable exact_arith 1 2 = 1"
    using C4_is_stable_fixed_iteration [of 2 exact_arith 1]
    by (simp add: exact_arith_def eval_nat_numeral)
  have b: "is_stable exact_arith 1 3 = 0"
    using C4_is_stable_fixed_iteration [of 3 exact_arith 1]
    by (simp add: exact_arith_def eval_nat_numeral)
  show ?thesis using a b by simp
qed

subsection \<open>The grid generator\<close>

lemma fill_array_cols_result:
  assumes "i * COLS + COLS \<le> length array"
  shows "\<exists>array'. fill_array_cols A rs rst is ist i j array = Inr array'
           \<and> length array' = length array
           \<and> (\<forall>k < length array. array' ! k =
                 (if i * COLS + j \<le> k \<and> k < i * COLS + COLS
                  then dc_add A (d_add A rs (d_mul A (d_of_int A (int (k - i * COLS))) rst))
                         (dc_mul A (d_add A is (d_mul A (d_of_int A (int i)) ist)) (c_I A))
                  else array ! k))"
  using assms
proof (induction A rs rst "is" ist i j array rule: fill_array_cols.induct)
  case (1 A rs rst "is" ist i j array)
  show ?case
  proof (cases "j < COLS")
    case False
    then have no: "\<not> (i * COLS + j \<le> k \<and> k < i * COLS + COLS)" for k
      by arith
    from False have "fill_array_cols A rs rst is ist i j array = Inr array"
      by (simp add: fill_array_cols.simps [of A rs rst "is" ist i j array])
    then show ?thesis
      by (simp only: no if_False) simp
  next
    case True
    define v where "v = dc_add A (d_add A rs (d_mul A (d_of_int A (int j)) rst))
                         (dc_mul A (d_add A is (d_mul A (d_of_int A (int i)) ist)) (c_I A))"
    from True "1.prems" have inb: "i * COLS + j < length array" by simp
    then have st: "store array (i * COLS + j) v = Inr (array[i * COLS + j := v])"
      by (simp add: store_def)
    have len: "i * COLS + COLS \<le> length (array[i * COLS + j := v])"
      using "1.prems" by simp
    have step: "fill_array_cols A rs rst is ist i j array =
        fill_array_cols A rs rst is ist i (j + 1) (array[i * COLS + j := v])"
      using True st by (simp add: fill_array_cols.simps [of A rs rst "is" ist i j array] v_def)
    from "1.IH" [OF True refl refl, of "array[i * COLS + j := v]"] st len
    obtain array' where r: "fill_array_cols A rs rst is ist i (j + 1) (array[i * COLS + j := v]) = Inr array'"
      and l: "length array' = length array"
      and c: "\<forall>k < length array. array' ! k =
                 (if i * COLS + (j + 1) \<le> k \<and> k < i * COLS + COLS
                  then dc_add A (d_add A rs (d_mul A (d_of_int A (int (k - i * COLS))) rst))
                         (dc_mul A (d_add A is (d_mul A (d_of_int A (int i)) ist)) (c_I A))
                  else (array[i * COLS + j := v]) ! k)"
      unfolding v_def by auto
    have "\<forall>k < length array. array' ! k =
                 (if i * COLS + j \<le> k \<and> k < i * COLS + COLS
                  then dc_add A (d_add A rs (d_mul A (d_of_int A (int (k - i * COLS))) rst))
                         (dc_mul A (d_add A is (d_mul A (d_of_int A (int i)) ist)) (c_I A))
                  else array ! k)"
    proof (intro allI impI)
      fix k assume k: "k < length array"
      show "array' ! k =
                 (if i * COLS + j \<le> k \<and> k < i * COLS + COLS
                  then dc_add A (d_add A rs (d_mul A (d_of_int A (int (k - i * COLS))) rst))
                         (dc_mul A (d_add A is (d_mul A (d_of_int A (int i)) ist)) (c_I A))
                  else array ! k)"
      proof (cases "k = i * COLS + j")
        case True
        then show ?thesis using c k inb \<open>j < COLS\<close> by (simp add: v_def)
      next
        case False
        then show ?thesis using c k by auto
      qed
    qed
    with step r l show ?thesis by simp
  qed
qed

lemma row_major_index:
  assumes "i * COLS \<le> k" "k < i * COLS + COLS"
  shows "k div COLS = i" "k mod COLS = k - i * COLS"
proof -
  from assms have j: "k - i * COLS < COLS" and k: "k = i * COLS + (k - i * COLS)"
    by simp_all
  have "(i * COLS + (k - i * COLS)) div COLS = i"
    using j by simp
  with k show "k div COLS = i" by simp
  have "(i * COLS + (k - i * COLS)) mod COLS = k - i * COLS"
    using j by simp
  with k show "k mod COLS = k - i * COLS" by simp
qed

lemma fill_array_rows_result:
  assumes "length array = ROWS * COLS"
  shows "\<exists>array'. fill_array_rows A rs rst is ist i array = Inr array'
           \<and> length array' = length array
           \<and> (\<forall>k < length array. array' ! k =
                 (if i * COLS \<le> k
                  then dc_add A (d_add A rs (d_mul A (d_of_int A (int (k mod COLS))) rst))
                         (dc_mul A (d_add A is (d_mul A (d_of_int A (int (k div COLS))) ist)) (c_I A))
                  else array ! k))"
  using assms
proof (induction A rs rst "is" ist i array rule: fill_array_rows.induct)
  case (1 A rs rst "is" ist i array)
  show ?case
  proof (cases "i < ROWS")
    case False
    then have "ROWS * COLS \<le> i * COLS"
      by (intro mult_le_mono1) simp
    with "1.prems" have no: "\<not> i * COLS \<le> k" if "k < length array" for k
      using that by linarith
    from False have "fill_array_rows A rs rst is ist i array = Inr array"
      by (simp add: fill_array_rows.simps [of A rs rst "is" ist i array])
    then show ?thesis
      using no by simp
  next
    case True
    then have "(i + 1) * COLS \<le> ROWS * COLS"
      by (intro mult_le_mono1) simp
    with "1.prems" have fits: "i * COLS + COLS \<le> length array"
      by simp
    from fill_array_cols_result [OF fits, of A rs rst "is" ist 0]
    obtain array1 where r1: "fill_array_cols A rs rst is ist i 0 array = Inr array1"
      and l1: "length array1 = length array"
      and c1: "\<forall>k < length array. array1 ! k =
                 (if i * COLS + 0 \<le> k \<and> k < i * COLS + COLS
                  then dc_add A (d_add A rs (d_mul A (d_of_int A (int (k - i * COLS))) rst))
                         (dc_mul A (d_add A is (d_mul A (d_of_int A (int i)) ist)) (c_I A))
                  else array ! k)"
      by blast
    have step: "fill_array_rows A rs rst is ist i array =
        fill_array_rows A rs rst is ist (i + 1) array1"
      using True r1 by (simp add: fill_array_rows.simps [of A rs rst "is" ist i array])
    from l1 "1.prems" have "length array1 = ROWS * COLS"
      by simp
    from "1.IH" [OF True r1 this] l1
    obtain array' where r: "fill_array_rows A rs rst is ist (i + 1) array1 = Inr array'"
      and l: "length array' = length array"
      and c: "\<forall>k < length array. array' ! k =
                 (if (i + 1) * COLS \<le> k
                  then dc_add A (d_add A rs (d_mul A (d_of_int A (int (k mod COLS))) rst))
                         (dc_mul A (d_add A is (d_mul A (d_of_int A (int (k div COLS))) ist)) (c_I A))
                  else array1 ! k)"
      by auto
    have "array' ! k =
                 (if i * COLS \<le> k
                  then dc_add A (d_add A rs (d_mul A (d_of_int A (int (k mod COLS))) rst))
                         (dc_mul A (d_add A is (d_mul A (d_of_int A (int (k div COLS))) ist)) (c_I A))
                  else array ! k)" if k: "k < length array" for k
    proof (cases "i * COLS \<le> k \<and> k < i * COLS + COLS")
      case True
      then have "k div COLS = i" "k mod COLS = k - i * COLS"
        by (simp_all add: row_major_index)
      with True c c1 k show ?thesis by simp
    next
      case False
      with c c1 k show ?thesis by auto
    qed
    with step r l show ?thesis by simp
  qed
qed

lemma fill_array_result:
  assumes "length array = ROWS * COLS"
  shows "fill_array A array =
     Inr (map (\<lambda>k. grid_point A (k div COLS) (k mod COLS)) [0..<ROWS * COLS])"
proof -
  let ?rs = "d_lit A (- 2)"
  let ?rst = "d_div A (d_sub A (d_lit A (1 / 2)) (d_lit A (- 2))) (d_of_int A (int COLS - 1))"
  let ?is = "d_lit A (- (3 / 2))"
  let ?ist = "d_div A (d_sub A (d_lit A (3 / 2)) (d_lit A (- (3 / 2)))) (d_of_int A (int ROWS - 1))"
  from fill_array_rows_result [OF assms, of A ?rs ?rst ?is ?ist 0]
  obtain array' where r: "fill_array_rows A ?rs ?rst ?is ?ist 0 array = Inr array'"
    and l: "length array' = length array"
    and c: "\<forall>k < length array. array' ! k = grid_point A (k div COLS) (k mod COLS)"
    unfolding grid_point_def by auto
  have "array' = map (\<lambda>k. grid_point A (k div COLS) (k mod COLS)) [0..<ROWS * COLS]"
    using l c assms by (intro nth_equalityI) simp_all
  with r show ?thesis
    by (simp add: fill_array_def)
qed

text \<open>
  C5. Given an array of \<open>ROWS * COLS\<close> cells, \<open>fill_array\<close> returns without leaving it,
  the array keeps its \<open>ROWS * COLS\<close> cells, and the cell of row \<open>row\<close> and column \<open>col\<close>,
  at index \<open>row * COLS + col\<close>, holds \<open>grid_point A row col\<close>, that is
  \<open>(real_start + col * real_step) + (imag_start + row * imag_step) * I\<close> with the steps
  \<open>(0.5 - (-2.0)) / (COLS - 1)\<close> and \<open>(1.5 - (-1.5)) / (ROWS - 1)\<close>. Every cell is written:
  the result does not depend on what the array held before, so another call on any array
  of that size returns the same cells.
\<close>

theorem C5_fill_array_row_major:
  assumes "length array = ROWS * COLS"
  shows "\<exists>array'. fill_array A array = Inr array'
           \<and> length array' = ROWS * COLS
           \<and> (\<forall>row < ROWS. \<forall>col < COLS. array' ! (row * COLS + col) = grid_point A row col)
           \<and> (\<forall>other. length other = ROWS * COLS \<longrightarrow> fill_array A other = Inr array')"
proof -
  let ?g = "map (\<lambda>k. grid_point A (k div COLS) (k mod COLS)) [0..<ROWS * COLS]"
  have "?g ! (row * COLS + col) = grid_point A row col" if "row < ROWS" "col < COLS" for row col
  proof -
    from that have "(row + 1) * COLS \<le> ROWS * COLS"
      by (intro mult_le_mono1) simp
    with that have "row * COLS + col < ROWS * COLS"
      by simp
    moreover from that have "(row * COLS + col) div COLS = row" "(row * COLS + col) mod COLS = col"
      by simp_all
    ultimately show ?thesis
      by simp
  qed
  then show ?thesis
    using assms by (simp add: fill_array_result)
qed

theorem C5_fill_array_row_major_witness:
  "\<exists>array'. fill_array exact_arith (replicate 6300 0) = Inr array'
     \<and> length array' = 6300
     \<and> array' ! 0 = Complex (- 2) (- (3 / 2))
     \<and> array' ! 6299 = Complex (1 / 2) (3 / 2)
     \<and> array' ! 150 = Complex (- 2 + 50 * (5 / 198)) (- (3 / 2) + 3 / 62)"
proof -
  have len: "length (replicate 6300 (0::complex)) = ROWS * COLS"
    by (simp add: ROWS_def COLS_def)
  from C5_fill_array_row_major [OF len, of exact_arith]
  obtain array' where r: "fill_array exact_arith (replicate 6300 0) = Inr array'"
    and l: "length array' = ROWS * COLS"
    and c: "\<forall>row < ROWS. \<forall>col < COLS. array' ! (row * COLS + col) = grid_point exact_arith row col"
    by blast
  have "array' ! (0 * COLS + 0) = grid_point exact_arith 0 0"
    using c [rule_format, of 0 0] by (simp add: ROWS_def COLS_def)
  then have c0: "array' ! 0 = Complex (- 2) (- (3 / 2))"
    by (simp add: grid_point_def exact_arith_def ROWS_def COLS_def complex_eq_iff
        of_rat_minus of_rat_divide)
  have "array' ! (62 * COLS + 99) = grid_point exact_arith 62 99"
    using c [rule_format, of 62 99] by (simp add: ROWS_def COLS_def)
  then have c1: "array' ! 6299 = Complex (1 / 2) (3 / 2)"
    by (simp add: grid_point_def exact_arith_def ROWS_def COLS_def complex_eq_iff
        of_rat_minus of_rat_divide)
  have "array' ! (1 * COLS + 50) = grid_point exact_arith 1 50"
    using c [rule_format, of 1 50] by (simp add: ROWS_def COLS_def)
  then have c2: "array' ! 150 = Complex (- 2 + 50 * (5 / 198)) (- (3 / 2) + 3 / 62)"
    by (simp add: grid_point_def exact_arith_def ROWS_def COLS_def complex_eq_iff
        of_rat_minus of_rat_divide)
  from r l c0 c1 c2 show ?thesis
    by (simp add: ROWS_def COLS_def)
qed

subsection \<open>The renderer\<close>

lemma print_chart_cols_result:
  assumes "i * COLS + COLS \<le> length array" "j \<le> COLS"
  shows "print_chart_cols array i j out =
     Inr (out @ map (\<lambda>j'. if array ! (i * COLS + j') \<noteq> 0 then CHR ''.'' else CHR '' '') [j..<COLS])"
  using assms
proof (induction array i j out rule: print_chart_cols.induct)
  case (1 array i j out)
  show ?case
  proof (cases "j < COLS")
    case False
    then have "print_chart_cols array i j out = Inr out"
      by (simp add: print_chart_cols.simps [of array i j out])
    with False "1.prems" show ?thesis
      by simp
  next
    case True
    with "1.prems" have "i * COLS + j < length array"
      by simp
    then have ld: "load array (i * COLS + j) = Inr (array ! (i * COLS + j))"
      by (simp add: load_def)
    let ?out = "out @ (if array ! (i * COLS + j) \<noteq> 0 then ''.'' else '' '')"
    have "print_chart_cols array i j out = print_chart_cols array i (j + 1) ?out"
      using True ld by (simp add: print_chart_cols.simps [of array i j out])
    also have "\<dots> = Inr (?out @
        map (\<lambda>j'. if array ! (i * COLS + j') \<noteq> 0 then CHR ''.'' else CHR '' '') [j + 1..<COLS])"
      using True "1.prems" by (intro "1.IH" [OF True ld]) simp_all
    also have "\<dots> = Inr (out @
        map (\<lambda>j'. if array ! (i * COLS + j') \<noteq> 0 then CHR ''.'' else CHR '' '') [j..<COLS])"
      using True by (simp add: upt_conv_Cons)
    finally show ?thesis .
  qed
qed

lemma print_chart_rows_result:
  assumes "length array = ROWS * COLS" "i \<le> ROWS"
  shows "print_chart_rows array i out =
     Inr (out @ concat (map (\<lambda>i'.
            map (\<lambda>j. if array ! (i' * COLS + j) \<noteq> 0 then CHR ''.'' else CHR '' '') [0..<COLS]
            @ [CHR 0x0A]) [i..<ROWS]))"
  using assms
proof (induction array i out rule: print_chart_rows.induct)
  case (1 array i out)
  show ?case
  proof (cases "i < ROWS")
    case False
    then have "print_chart_rows array i out = Inr out"
      by (simp add: print_chart_rows.simps [of array i out])
    with False "1.prems" show ?thesis
      by simp
  next
    case True
    then have "(i + 1) * COLS \<le> ROWS * COLS"
      by (intro mult_le_mono1) simp
    with "1.prems" have fits: "i * COLS + COLS \<le> length array"
      by simp
    let ?row = "map (\<lambda>j. if array ! (i * COLS + j) \<noteq> 0 then CHR ''.'' else CHR '' '') [0..<COLS]"
    have cols: "print_chart_cols array i 0 out = Inr (out @ ?row)"
      using fits by (simp add: print_chart_cols_result)
    have "print_chart_rows array i out = print_chart_rows array (i + 1) ((out @ ?row) @ [CHR 0x0A])"
      using True cols by (simp add: print_chart_rows.simps [of array i out])
    also have "\<dots> = Inr (((out @ ?row) @ [CHR 0x0A]) @ concat (map (\<lambda>i'.
            map (\<lambda>j. if array ! (i' * COLS + j) \<noteq> 0 then CHR ''.'' else CHR '' '') [0..<COLS]
            @ [CHR 0x0A]) [i + 1..<ROWS]))"
      using True "1.prems" by (intro "1.IH" [OF True cols]) simp_all
    also have "\<dots> = Inr (out @ concat (map (\<lambda>i'.
            map (\<lambda>j. if array ! (i' * COLS + j) \<noteq> 0 then CHR ''.'' else CHR '' '') [0..<COLS]
            @ [CHR 0x0A]) [i..<ROWS]))"
      using True by (simp add: upt_conv_Cons)
    finally show ?thesis .
  qed
qed

lemma print_chart_result:
  assumes "length array = ROWS * COLS"
  shows "print_chart array out =
     Inr (out @ concat (map (\<lambda>i.
            map (\<lambda>j. if array ! (i * COLS + j) \<noteq> 0 then CHR ''.'' else CHR '' '') [0..<COLS]
            @ [CHR 0x0A]) [0..<ROWS]))"
  using assms by (simp add: print_chart_def print_chart_rows_result)

lemma chart_cell_in_array:
  assumes "length array = ROWS * COLS" "i < ROWS" "j < COLS"
  shows "array ! (i * COLS + j) \<in> set array"
proof -
  from assms have "(i + 1) * COLS \<le> ROWS * COLS"
    by (intro mult_le_mono1) simp
  with assms have "i * COLS + j < length array"
    by simp
  then show ?thesis
    by simp
qed

text \<open>
  C6. Given a buffer of \<open>ROWS * COLS\<close> cells, \<open>print_chart\<close> returns without leaving it
  and appends to the output exactly \<open>ROWS\<close> rows, in order, each followed by one line
  terminator and nothing else; row \<open>i\<close> has exactly \<open>COLS\<close> characters, the \<open>j\<close>-th being
  \<open>'.'\<close> when cell \<open>i * COLS + j\<close> is non-zero (stable) and a blank otherwise. A buffer
  whose cells are all non-zero gives \<open>ROWS\<close> rows of \<open>COLS\<close> dots, one whose cells are all
  zero gives \<open>ROWS\<close> rows of \<open>COLS\<close> blanks.
\<close>

theorem C6_print_chart_lines:
  assumes "length array = ROWS * COLS"
  shows "\<exists>rows. print_chart array out = Inr (out @ concat (map (\<lambda>r. r @ [CHR 0x0A]) rows))
           \<and> length rows = ROWS
           \<and> (\<forall>i < ROWS. length (rows ! i) = COLS
                 \<and> (\<forall>j < COLS. rows ! i ! j =
                       (if array ! (i * COLS + j) \<noteq> 0 then CHR ''.'' else CHR '' '')))
           \<and> ((\<forall>v \<in> set array. v \<noteq> 0) \<longrightarrow> rows = replicate ROWS (replicate COLS CHR ''.''))
           \<and> ((\<forall>v \<in> set array. v = 0) \<longrightarrow> rows = replicate ROWS (replicate COLS CHR '' ''))"
proof -
  define rows where "rows = map (\<lambda>i.
     map (\<lambda>j. if array ! (i * COLS + j) \<noteq> 0 then CHR ''.'' else CHR '' '') [0..<COLS]) [0..<ROWS]"
  have out: "print_chart array out = Inr (out @ concat (map (\<lambda>r. r @ [CHR 0x0A]) rows))"
    using assms by (simp add: print_chart_result rows_def comp_def)
  have len: "length rows = ROWS"
    by (simp add: rows_def)
  have cells: "\<forall>i < ROWS. length (rows ! i) = COLS
                 \<and> (\<forall>j < COLS. rows ! i ! j =
                       (if array ! (i * COLS + j) \<noteq> 0 then CHR ''.'' else CHR '' ''))"
    by (simp add: rows_def)
  have dots: "rows = replicate ROWS (replicate COLS CHR ''.'')" if "\<forall>v \<in> set array. v \<noteq> 0"
  proof (rule nth_equalityI)
    show "length rows = length (replicate ROWS (replicate COLS CHR ''.''))"
      by (simp add: len)
  next
    fix i assume "i < length rows"
    then have i: "i < ROWS" by (simp add: len)
    have "rows ! i = map (\<lambda>j. CHR ''.'') [0..<COLS]"
      using i that chart_cell_in_array [OF assms i] by (simp add: rows_def)
    then show "rows ! i = replicate ROWS (replicate COLS CHR ''.'') ! i"
      using i by (simp add: map_replicate_const)
  qed
  have blanks: "rows = replicate ROWS (replicate COLS CHR '' '')" if "\<forall>v \<in> set array. v = 0"
  proof (rule nth_equalityI)
    show "length rows = length (replicate ROWS (replicate COLS CHR '' ''))"
      by (simp add: len)
  next
    fix i assume "i < length rows"
    then have i: "i < ROWS" by (simp add: len)
    have "rows ! i = map (\<lambda>j. CHR '' '') [0..<COLS]"
      using i that chart_cell_in_array [OF assms i] by (simp add: rows_def)
    then show "rows ! i = replicate ROWS (replicate COLS CHR '' '') ! i"
      using i by (simp add: map_replicate_const)
  qed
  from out len cells dots blanks show ?thesis
    by blast
qed

theorem C6_print_chart_lines_witness:
  "print_chart (replicate 6300 1) [] =
     Inr (concat (map (\<lambda>r. r @ [CHR 0x0A]) (replicate 63 (replicate 100 CHR ''.''))))
   \<and> print_chart (replicate 6300 0) [] =
     Inr (concat (map (\<lambda>r. r @ [CHR 0x0A]) (replicate 63 (replicate 100 CHR '' ''))))"
proof -
  have len1: "length (replicate 6300 (1::int)) = ROWS * COLS"
    and len0: "length (replicate 6300 (0::int)) = ROWS * COLS"
    by (simp_all add: ROWS_def COLS_def)
  have a: "print_chart (replicate 6300 1) [] =
     Inr (concat (map (\<lambda>r. r @ [CHR 0x0A]) (replicate 63 (replicate 100 CHR ''.''))))"
    using C6_print_chart_lines [OF len1, of "[]"] by (auto simp: ROWS_def COLS_def)
  have b: "print_chart (replicate 6300 0) [] =
     Inr (concat (map (\<lambda>r. r @ [CHR 0x0A]) (replicate 63 (replicate 100 CHR '' ''))))"
    using C6_print_chart_lines [OF len0, of "[]"] by (auto simp: ROWS_def COLS_def)
  from a b show ?thesis ..
qed

subsection \<open>Task submission and the kernel\<close>

lemma submit_tasks_result:
  assumes "ROWS * COLS \<le> length matrix" "i \<le> ROWS * COLS"
  shows "submit_tasks matrix i tasks =
     Inr (tasks @ map (\<lambda>k. starpu_task_insert cl [(STARPU_R, matrix_handle)]
                             [Value_complex (matrix ! k), Value_int (int k)]) [i..<ROWS * COLS])"
  using assms
proof (induction matrix i tasks rule: submit_tasks.induct)
  case (1 matrix i tasks)
  show ?case
  proof (cases "i < ROWS * COLS")
    case False
    then have "submit_tasks matrix i tasks = Inr tasks"
      by (simp add: submit_tasks.simps [of matrix i tasks])
    with False "1.prems" show ?thesis
      by simp
  next
    case True
    with "1.prems" have ld: "load matrix i = Inr (matrix ! i)"
      by (simp add: load_def)
    let ?t = "starpu_task_insert cl [(STARPU_R, matrix_handle)]
                [Value_complex (matrix ! i), Value_int (int i)]"
    have "submit_tasks matrix i tasks = submit_tasks matrix (i + 1) (tasks @ [?t])"
      using True ld by (simp add: submit_tasks.simps [of matrix i tasks])
    also have "\<dots> = Inr ((tasks @ [?t]) @
        map (\<lambda>k. starpu_task_insert cl [(STARPU_R, matrix_handle)]
                    [Value_complex (matrix ! k), Value_int (int k)]) [i + 1..<ROWS * COLS])"
      using True "1.prems" by (intro "1.IH" [OF True ld]) simp_all
    also have "\<dots> = Inr (tasks @
        map (\<lambda>k. starpu_task_insert cl [(STARPU_R, matrix_handle)]
                    [Value_complex (matrix ! k), Value_int (int k)]) [i..<ROWS * COLS])"
      using True by (simp add: upt_conv_Cons)
    finally show ?thesis .
  qed
qed

lemma count_list_distinct:
  "distinct xs \<Longrightarrow> count_list xs x = (if x \<in> set xs then 1 else 0)"
  by (induction xs) auto

lemma named_index_insert:
  "named_index (starpu_task_insert codelet buffers [Value_complex c, Value_int i]) = Some i"
  by (simp add: named_index_def starpu_task_insert_def)

text \<open>
  C3. On a grid of \<open>ROWS * COLS\<close> cells the submission loop of \<open>main\<close> returns without
  leaving the grid and inserts exactly \<open>ROWS * COLS\<close> tasks, one per pass; the \<open>i\<close>-th
  carries the cell value \<open>matrix[i]\<close> and the index \<open>i\<close>. The indices named are
  \<open>0, 1, ..., ROWS * COLS - 1\<close> in this order: they are pairwise distinct, every index of
  the range is named by exactly one task and no index outside it by any. So no two
  descriptors name the same Result Buffer index.
\<close>

theorem C3_one_descriptor_per_index:
  assumes "length matrix = ROWS * COLS"
  shows "\<exists>tasks. submit_tasks matrix 0 [] = Inr tasks
           \<and> length tasks = ROWS * COLS
           \<and> (\<forall>i < ROWS * COLS.
                 task_cl_arg (tasks ! i) = [Value_complex (matrix ! i), Value_int (int i)])
           \<and> map named_index tasks = map (\<lambda>i. Some (int i)) [0..<ROWS * COLS]
           \<and> distinct (map named_index tasks)
           \<and> (\<forall>i. count_list (map named_index tasks) (Some i) =
                 (if 0 \<le> i \<and> i < int (ROWS * COLS) then 1 else 0))"
proof -
  define tasks where "tasks = map (\<lambda>k. starpu_task_insert cl [(STARPU_R, matrix_handle)]
                             [Value_complex (matrix ! k), Value_int (int k)]) [0..<ROWS * COLS]"
  have r: "submit_tasks matrix 0 [] = Inr tasks"
    using assms by (simp add: submit_tasks_result tasks_def)
  have l: "length tasks = ROWS * COLS"
    by (simp add: tasks_def)
  have a: "\<forall>i < ROWS * COLS.
       task_cl_arg (tasks ! i) = [Value_complex (matrix ! i), Value_int (int i)]"
    by (simp add: tasks_def starpu_task_insert_def)
  have n: "map named_index tasks = map (\<lambda>i. Some (int i)) [0..<ROWS * COLS]"
    by (simp add: tasks_def named_index_insert comp_def)
  have d: "distinct (map named_index tasks)"
    unfolding n by (simp add: distinct_map inj_on_def)
  have c: "count_list (map named_index tasks) (Some i) =
       (if 0 \<le> i \<and> i < int (ROWS * COLS) then 1 else 0)" for i
  proof -
    have "Some i \<in> set (map named_index tasks) \<longleftrightarrow> 0 \<le> i \<and> i < int (ROWS * COLS)"
      unfolding n
    proof
      assume "Some i \<in> set (map (\<lambda>i. Some (int i)) [0..<ROWS * COLS])"
      then obtain k where "i = int k" "k < ROWS * COLS" by auto
      then show "0 \<le> i \<and> i < int (ROWS * COLS)" by (simp del: of_nat_mult)
    next
      assume "0 \<le> i \<and> i < int (ROWS * COLS)"
      then have "nat i < ROWS * COLS" "i = int (nat i)" by (simp_all add: nat_less_iff del: of_nat_mult)
      then have "Some i = (\<lambda>i. Some (int i)) (nat i)" "nat i \<in> set [0..<ROWS * COLS]"
        by simp_all
      then show "Some i \<in> set (map (\<lambda>i. Some (int i)) [0..<ROWS * COLS])"
        unfolding set_map by (rule image_eqI)
    qed
    with d show ?thesis
      by (simp add: count_list_distinct)
  qed
  from r l a n d c show ?thesis
    by blast
qed

theorem C3_one_descriptor_per_index_witness:
  "\<exists>tasks. submit_tasks (map complex_of_nat [0..<6300]) 0 [] = Inr tasks
     \<and> length tasks = 6300
     \<and> task_cl_arg (tasks ! 17) = [Value_complex 17, Value_int 17]
     \<and> count_list (map named_index tasks) (Some 17) = 1
     \<and> count_list (map named_index tasks) (Some 6300) = 0"
proof -
  have len: "length (map complex_of_nat [0..<6300]) = ROWS * COLS"
    by (simp add: ROWS_def COLS_def)
  from C3_one_descriptor_per_index [OF len]
  obtain tasks where r: "submit_tasks (map complex_of_nat [0..<6300]) 0 [] = Inr tasks"
    and l: "length tasks = ROWS * COLS"
    and a: "\<forall>i < ROWS * COLS. task_cl_arg (tasks ! i) =
              [Value_complex (map complex_of_nat [0..<6300] ! i), Value_int (int i)]"
    and c: "\<forall>i. count_list (map named_index tasks) (Some i) =
              (if 0 \<le> i \<and> i < int (ROWS * COLS) then 1 else 0)"
    by blast
  have "task_cl_arg (tasks ! 17) = [Value_complex 17, Value_int 17]"
    using a [rule_format, of 17] by (simp add: ROWS_def COLS_def)
  moreover have "count_list (map named_index tasks) (Some 17) = 1"
    using c [rule_format, of 17] by (simp add: ROWS_def COLS_def)
  moreover have "count_list (map named_index tasks) (Some 6300) = 0"
    using c [rule_format, of 6300] by (simp add: ROWS_def COLS_def)
  ultimately show ?thesis
    using r l by (simp add: ROWS_def COLS_def)
qed

text \<open>
  C2. The access mode the program declares for the registered Result Buffer is
  \<open>STARPU_R\<close>, read, not write: the codelet \<open>cl\<close> declares \<open>STARPU_R\<close> for its one buffer,
  \<open>STARPU_W\<close> is not among its modes, and each of the \<open>ROWS * COLS\<close> tasks the submission
  loop inserts, whatever the grid holds, names the vector with \<open>STARPU_R\<close>.
\<close>

theorem C2_buffer_declared_read_only:
  "modes cl = [STARPU_R] \<and> STARPU_W \<notin> set (modes cl)
   \<and> (case submit_tasks (map g [0..<ROWS * COLS]) 0 [] of
        Inl e \<Rightarrow> False
      | Inr tasks \<Rightarrow>
          length tasks = ROWS * COLS
          \<and> map task_buffers tasks = replicate (ROWS * COLS) [(STARPU_R, matrix_handle)]
          \<and> map (\<lambda>t. modes (task_cl t)) tasks = replicate (ROWS * COLS) [STARPU_R])"
proof -
  have "submit_tasks (map g [0..<ROWS * COLS]) 0 [] =
     Inr (map (\<lambda>k. starpu_task_insert cl [(STARPU_R, matrix_handle)]
                     [Value_complex (map g [0..<ROWS * COLS] ! k), Value_int (int k)])
            [0..<ROWS * COLS])"
    by (simp add: submit_tasks_result)
  then show ?thesis
    by (simp add: cl_def starpu_task_insert_def comp_def map_replicate_const)
qed

text \<open>
  C1. The kernel as written does not store the verdict at the index its task names. For
  a task as \<open>main\<close> builds it, with the packed arguments \<open>c\<close> and \<open>i\<close>, the second call of
  \<^verbatim>\<open>starpu_codelet_unpack_args\<close> hands back the packed complex value again and copies it
  over the \<^verbatim>\<open>int i\<close>: \<open>cpu_func\<close> ends in the fault \<open>Arg_Overrun\<close> whatever \<open>c\<close>, \<open>i\<close> and the
  buffer are, the packed index is never read, and a single worker running the tasks in
  submission order faults at the first one.
\<close>

theorem C1_kernel_overruns_index:
  "cpu_func A val [Value_complex c, Value_int i] = Inl Arg_Overrun
   \<and> run_tasks A (starpu_task_insert cl [(STARPU_R, matrix_handle)]
                    [Value_complex c, Value_int i] # ts) val = Inl Arg_Overrun"
  by (simp add: cpu_func_def starpu_codelet_unpack_args_def starpu_task_insert_def)



lemma main_runs_runtime:
  "main A (Some g) (Some h) runtime =
     (case runtime
             (map (\<lambda>k. starpu_task_insert cl [(STARPU_R, matrix_handle)]
                          [Value_complex (grid_point A (k div COLS) (k mod COLS)), Value_int (int k)])
                [0..<ROWS * COLS])
             (map h [0..<ROWS * COLS]) of
        Inl e \<Rightarrow> Inl e
      | Inr mask' \<Rightarrow>
          (case print_chart mask' [] of
             Inl e \<Rightarrow> Inl e
           | Inr out \<Rightarrow> Inr \<lparr> exit_status = 0, stdout = out, stderr = [] \<rparr>))"
proof -
  let ?matrix = "map (\<lambda>k. grid_point A (k div COLS) (k mod COLS)) [0..<ROWS * COLS]"
  have f: "fill_array A (map g [0..<ROWS * COLS]) = Inr ?matrix"
    by (simp add: fill_array_result)
  have s: "submit_tasks ?matrix 0 [] =
     Inr (map (\<lambda>k. starpu_task_insert cl [(STARPU_R, matrix_handle)]
                     [Value_complex (?matrix ! k), Value_int (int k)]) [0..<ROWS * COLS])"
    by (simp add: submit_tasks_result)
  have "map (\<lambda>k. starpu_task_insert cl [(STARPU_R, matrix_handle)]
                     [Value_complex (?matrix ! k), Value_int (int k)]) [0..<ROWS * COLS]
      = map (\<lambda>k. starpu_task_insert cl [(STARPU_R, matrix_handle)]
                     [Value_complex (grid_point A (k div COLS) (k mod COLS)), Value_int (int k)])
          [0..<ROWS * COLS]"
    by (rule map_cong) simp_all
  with s f show ?thesis
    by (simp add: main_def)
qed

subsection \<open>The process\<close>

lemma main_exit_0:
  assumes "\<forall>tasks v. \<exists>v'. runtime tasks v = Inr v' \<and> length v' = length v"
  shows "\<exists>out. main A (Some g) (Some h) runtime =
           Inr \<lparr> exit_status = 0, stdout = out, stderr = [] \<rparr>"
proof -
  let ?tasks = "map (\<lambda>k. starpu_task_insert cl [(STARPU_R, matrix_handle)]
                  [Value_complex (grid_point A (k div COLS) (k mod COLS)), Value_int (int k)])
                [0..<ROWS * COLS]"
  from assms obtain mask' where r: "runtime ?tasks (map h [0..<ROWS * COLS]) = Inr mask'"
    and l: "length mask' = length (map h [0..<ROWS * COLS])"
    by blast
  from l have "length mask' = ROWS * COLS"
    by simp
  then have "\<exists>out. print_chart mask' [] = Inr out"
    by (simp add: print_chart_result)
  then obtain out where "print_chart mask' [] = Inr out" ..
  with r have "main A (Some g) (Some h) runtime =
      Inr \<lparr> exit_status = 0, stdout = out, stderr = [] \<rparr>"
    by (simp add: main_runs_runtime)
  then show ?thesis ..
qed

text \<open>
  C7. When the allocation of the grid fails, or that of the result buffer, \<open>main\<close> reports
  it with \<^verbatim>\<open>perror("malloc")\<close>, prints nothing on standard output and returns 1; each of
  the two results is tested, the grid's first. When both allocations succeed and the task
  runtime gives the buffer back, \<open>main\<close> returns 0 after printing the chart.
\<close>

theorem C7_allocation_failure_exit:
  "(matrix_alloc = None \<or> mask_alloc = None \<longrightarrow>
      main A matrix_alloc mask_alloc runtime =
        Inr \<lparr> exit_status = 1, stdout = [], stderr = [''malloc''] \<rparr>)
   \<and> (matrix_alloc \<noteq> None \<and> mask_alloc \<noteq> None
        \<and> (\<forall>tasks v. \<exists>v'. runtime tasks v = Inr v' \<and> length v' = length v) \<longrightarrow>
      (\<exists>out. main A matrix_alloc mask_alloc runtime =
         Inr \<lparr> exit_status = 0, stdout = out, stderr = [] \<rparr>))"
proof (intro conjI impI)
  assume "matrix_alloc = None \<or> mask_alloc = None"
  then show "main A matrix_alloc mask_alloc runtime =
        Inr \<lparr> exit_status = 1, stdout = [], stderr = [''malloc''] \<rparr>"
    by (auto simp: main_def split: option.splits)
next
  assume "matrix_alloc \<noteq> None \<and> mask_alloc \<noteq> None
        \<and> (\<forall>tasks v. \<exists>v'. runtime tasks v = Inr v' \<and> length v' = length v)"
  then obtain g h where "matrix_alloc = Some g" "mask_alloc = Some h"
    and "\<forall>tasks v. \<exists>v'. runtime tasks v = Inr v' \<and> length v' = length v"
    by auto
  then show "\<exists>out. main A matrix_alloc mask_alloc runtime =
         Inr \<lparr> exit_status = 0, stdout = out, stderr = [] \<rparr>"
    by (simp add: main_exit_0)
qed

theorem C7_allocation_failure_exit_witness:
  "main exact_arith None (Some (\<lambda>k. 0)) (\<lambda>tasks v. Inr v) =
     Inr \<lparr> exit_status = 1, stdout = [], stderr = [''malloc''] \<rparr>
   \<and> main exact_arith (Some (\<lambda>k. 0)) None (\<lambda>tasks v. Inr v) =
     Inr \<lparr> exit_status = 1, stdout = [], stderr = [''malloc''] \<rparr>
   \<and> (\<exists>out. main exact_arith (Some (\<lambda>k. 0)) (Some (\<lambda>k. 0)) (\<lambda>tasks v. Inr v) =
         Inr \<lparr> exit_status = 0, stdout = out, stderr = [] \<rparr>)"
proof -
  have a: "main exact_arith None (Some (\<lambda>k. 0)) (\<lambda>tasks v. Inr v) =
     Inr \<lparr> exit_status = 1, stdout = [], stderr = [''malloc''] \<rparr>"
    using C7_allocation_failure_exit [of None "Some (\<lambda>k. 0)" exact_arith "\<lambda>tasks v. Inr v"]
    by simp
  have b: "main exact_arith (Some (\<lambda>k. 0)) None (\<lambda>tasks v. Inr v) =
     Inr \<lparr> exit_status = 1, stdout = [], stderr = [''malloc''] \<rparr>"
    using C7_allocation_failure_exit [of "Some (\<lambda>k. 0)" None exact_arith "\<lambda>tasks v. Inr v"]
    by simp
  have c: "\<exists>out. main exact_arith (Some (\<lambda>k. 0)) (Some (\<lambda>k. 0)) (\<lambda>tasks v. Inr v) =
         Inr \<lparr> exit_status = 0, stdout = out, stderr = [] \<rparr>"
    using C7_allocation_failure_exit
      [of "Some (\<lambda>k. 0)" "Some (\<lambda>k. 0)" exact_arith "\<lambda>tasks v. Inr v"]
    by simp
  from a b c show ?thesis by blast
qed



text \<open>
  C8. At the origin, for every bound \<open>k \<ge> 0\<close>: in an arithmetic where \<open>0 * 0 + 0\<close> is \<open>0\<close>
  and \<open>cabs(0) \<le> 2.0\<close> holds, as in that of IEEE 754, the loop of \<open>is_stable\<close> started at
  \<open>z = 0\<close> with \<open>c = 0\<close> ends with \<open>z = 0\<close>, and \<open>is_stable\<close> answers 1 (stable).
\<close>

theorem C8_origin_is_stable:
  assumes "c_add A (c_mul A (c_of_int A 0) (c_of_int A 0)) (c_of_int A 0) = c_of_int A 0"
    and "d_le A (c_abs A (c_of_int A 0)) (d_lit A 2)"
    and "0 \<le> k"
  shows "is_stable_loop A (c_of_int A 0) k 0 (c_of_int A 0) = c_of_int A 0
     \<and> is_stable A (c_of_int A 0) k = 1"
proof -
  have "((\<lambda>z. c_add A (c_mul A z z) (c_of_int A 0)) ^^ n) (c_of_int A 0) = c_of_int A 0" for n
    by (induction n) (simp_all add: assms(1))
  then have "is_stable_loop A (c_of_int A 0) k 0 (c_of_int A 0) = c_of_int A 0"
    by (simp add: is_stable_loop_funpow)
  with assms(2) show ?thesis
    by (simp add: is_stable_def)
qed

theorem C8_origin_is_stable_witness:
  "is_stable exact_arith 0 0 = 1 \<and> is_stable exact_arith 0 2000 = 1"
proof -
  have z: "c_of_int exact_arith 0 = 0"
    by (simp add: exact_arith_def)
  have h1: "c_add exact_arith (c_mul exact_arith (c_of_int exact_arith 0) (c_of_int exact_arith 0))
      (c_of_int exact_arith 0) = c_of_int exact_arith 0"
    by (simp add: exact_arith_def)
  have h2: "d_le exact_arith (c_abs exact_arith (c_of_int exact_arith 0)) (d_lit exact_arith 2)"
    by (simp add: exact_arith_def)
  have "is_stable exact_arith 0 0 = 1"
    using C8_origin_is_stable [OF h1 h2, of 0] by (simp add: z)
  moreover have "is_stable exact_arith 0 2000 = 1"
    using C8_origin_is_stable [OF h1 h2, of 2000] by (simp add: z)
  ultimately show ?thesis ..
qed

subsection \<open>The corner cells in binary64\<close>

lemma round64_examples:
  "round64 (1 / 10) = 3602879701896397 / 36028797018963968"
  "round64 (- (3 / 2)) = - (3 / 2)"
  "round64 (2 ^ 53 + 1) = 2 ^ 53"
  "round64 (2 ^ 53 + 3) = 2 ^ 53 + 4"
  by code_simp+

lemma corner_first: "grid_point (binary64 cabs) 0 0 = (- 2, - (3 / 2))"
  by code_simp

lemma corner_last_col: "fst (grid_point (binary64 cabs) 0 99) = 1 / 2"
  by code_simp

lemma corner_last_row: "snd (grid_point (binary64 cabs) 62 0) = 3 / 2"
  by code_simp

lemma corner_last: "grid_point (binary64 cabs) 62 99 = (1 / 2, 3 / 2)"
  by code_simp

lemma steps_rounded:
  "d_div (binary64 cabs) (d_sub (binary64 cabs) (d_lit (binary64 cabs) (1 / 2)) (d_lit (binary64 cabs) (- 2)))
     (d_of_int (binary64 cabs) (int COLS - 1)) = 7278544852315953 / 288230376151711744"
  "d_div (binary64 cabs) (d_sub (binary64 cabs) (d_lit (binary64 cabs) (3 / 2)) (d_lit (binary64 cabs) (- (3 / 2))))
     (d_of_int (binary64 cabs) (int ROWS - 1)) = 3486657776028771 / 72057594037927936"
  by code_simp+

lemma fused_last_col:
  "fst (grid_point (binary64_fused cabs) 0 99) = 9007199254740991 / 18014398509481984"
  by code_simp

lemma grid_corner_indices:
  "0 * COLS + 0 < ROWS * COLS"
  "0 * COLS + (COLS - 1) < ROWS * COLS"
  "(ROWS - 1) * COLS + 0 < ROWS * COLS"
  "(ROWS - 1) * COLS + (COLS - 1) < ROWS * COLS"
  "(0 * COLS + 0) div COLS = 0" "(0 * COLS + 0) mod COLS = 0"
  "(0 * COLS + (COLS - 1)) div COLS = 0" "(0 * COLS + (COLS - 1)) mod COLS = 99"
  "((ROWS - 1) * COLS + 0) div COLS = 62" "((ROWS - 1) * COLS + 0) mod COLS = 0"
  "((ROWS - 1) * COLS + (COLS - 1)) div COLS = 62"
  "((ROWS - 1) * COLS + (COLS - 1)) mod COLS = 99"
  by (simp_all add: ROWS_def COLS_def)

text \<open>
  C9. In double precision, that is in binary64 arithmetic with every operation of
  \<open>fill_array\<close> rounded to nearest, the corner cells of the generated grid are the range
  endpoints exactly: cell \<open>(0, 0)\<close> is \<open>-2.0 - 1.5i\<close>, cell \<open>(0, COLS - 1)\<close> has the real part
  \<open>0.5\<close>, cell \<open>(ROWS - 1, 0)\<close> the imaginary part \<open>1.5\<close>, and cell \<open>(ROWS - 1, COLS - 1)\<close> is
  \<open>0.5 + 1.5i\<close>. This holds although the two steps are rounded quotients: neither
  \<open>real_step\<close> nor \<open>imag_step\<close> is the exact \<open>2.5 / 99\<close> or \<open>3 / 62\<close>.
\<close>

theorem C9_corner_cells_exact:
  assumes "length array = ROWS * COLS"
  shows "\<exists>array'. fill_array (binary64 cabs) array = Inr array'
           \<and> array' ! (0 * COLS + 0) = (- 2, - (3 / 2))
           \<and> fst (array' ! (0 * COLS + (COLS - 1))) = 1 / 2
           \<and> snd (array' ! ((ROWS - 1) * COLS + 0)) = 3 / 2
           \<and> array' ! ((ROWS - 1) * COLS + (COLS - 1)) = (1 / 2, 3 / 2)
           \<and> d_div (binary64 cabs)
                (d_sub (binary64 cabs) (d_lit (binary64 cabs) (1 / 2)) (d_lit (binary64 cabs) (- 2)))
                (d_of_int (binary64 cabs) (int COLS - 1)) \<noteq> 5 / 2 / 99
           \<and> d_div (binary64 cabs)
                (d_sub (binary64 cabs) (d_lit (binary64 cabs) (3 / 2))
                   (d_lit (binary64 cabs) (- (3 / 2))))
                (d_of_int (binary64 cabs) (int ROWS - 1)) \<noteq> 3 / 62"
proof -
  let ?A = "binary64 cabs"
  let ?g = "map (\<lambda>k. grid_point ?A (k div COLS) (k mod COLS)) [0..<ROWS * COLS]"
  have r: "fill_array ?A array = Inr ?g"
    using assms by (rule fill_array_result)
  have cell: "?g ! k = grid_point ?A (k div COLS) (k mod COLS)" if "k < ROWS * COLS" for k
    using that by simp
  have "?g ! (0 * COLS + 0) = grid_point ?A 0 0"
    by (simp only: cell [OF grid_corner_indices(1)] grid_corner_indices)
  then have c00: "?g ! (0 * COLS + 0) = (- 2, - (3 / 2))"
    by (simp only: corner_first)
  have "?g ! (0 * COLS + (COLS - 1)) = grid_point ?A 0 99"
    by (simp only: cell [OF grid_corner_indices(2)] grid_corner_indices)
  then have c0c: "fst (?g ! (0 * COLS + (COLS - 1))) = 1 / 2"
    by (simp only: corner_last_col)
  have "?g ! ((ROWS - 1) * COLS + 0) = grid_point ?A 62 0"
    by (simp only: cell [OF grid_corner_indices(3)] grid_corner_indices)
  then have cr0: "snd (?g ! ((ROWS - 1) * COLS + 0)) = 3 / 2"
    by (simp only: corner_last_row)
  have "?g ! ((ROWS - 1) * COLS + (COLS - 1)) = grid_point ?A 62 99"
    by (simp only: cell [OF grid_corner_indices(4)] grid_corner_indices)
  then have crc: "?g ! ((ROWS - 1) * COLS + (COLS - 1)) = (1 / 2, 3 / 2)"
    by (simp only: corner_last)
  have q: "(7278544852315953 :: rat) / 288230376151711744 \<noteq> 5 / 2 / 99"
    "(3486657776028771 :: rat) / 72057594037927936 \<noteq> 3 / 62"
    by simp_all
  have s1: "d_div ?A (d_sub ?A (d_lit ?A (1 / 2)) (d_lit ?A (- 2)))
                (d_of_int ?A (int COLS - 1)) \<noteq> 5 / 2 / 99"
    by (simp only: steps_rounded(1) q not_False_eq_True)
  have s2: "d_div ?A (d_sub ?A (d_lit ?A (3 / 2)) (d_lit ?A (- (3 / 2))))
                (d_of_int ?A (int ROWS - 1)) \<noteq> 3 / 62"
    by (simp only: steps_rounded(2) q not_False_eq_True)
  from r c00 c0c cr0 crc s1 s2 show ?thesis
    by (intro exI [of _ ?g] conjI)
qed

theorem C9_corner_cells_exact_witness:
  "\<exists>array'. fill_array (binary64 (\<lambda>z. 0)) (replicate 6300 (0, 0)) = Inr array'
     \<and> array' ! 0 = (- 2, - (3 / 2))
     \<and> fst (array' ! 99) = 1 / 2
     \<and> snd (array' ! 6200) = 3 / 2
     \<and> array' ! 6299 = (1 / 2, 3 / 2)"
proof -
  have len: "length (replicate 6300 (0::rat, 0::rat)) = ROWS * COLS"
    by (simp add: ROWS_def COLS_def)
  from C9_corner_cells_exact [OF len, of "\<lambda>z. 0"]
  obtain array' where "fill_array (binary64 (\<lambda>z. 0)) (replicate 6300 (0, 0)) = Inr array'"
    and "array' ! (0 * COLS + 0) = (- 2, - (3 / 2))"
    and "fst (array' ! (0 * COLS + (COLS - 1))) = 1 / 2"
    and "snd (array' ! ((ROWS - 1) * COLS + 0)) = 3 / 2"
    and "array' ! ((ROWS - 1) * COLS + (COLS - 1)) = (1 / 2, 3 / 2)"
    by blast
  then show ?thesis
    by (simp add: ROWS_def COLS_def)
qed

text \<open>
  The exactness of the last column rests on the product \<open>j * real_step\<close> being rounded
  before the sum. Under a fused multiply-add the real part of cell \<open>(0, COLS - 1)\<close> is
  \<open>0.5 - 2 ^ (-54)\<close>, the double just below \<open>0.5\<close>.
\<close>

theorem fused_multiply_add_last_column:
  "(case fill_array (binary64_fused cabs) (replicate (ROWS * COLS) z) of
      Inl e \<Rightarrow> False
    | Inr array' \<Rightarrow>
        fst (array' ! (0 * COLS + (COLS - 1))) = 9007199254740991 / 18014398509481984
        \<and> fst (array' ! (0 * COLS + (COLS - 1))) = 1 / 2 - 1 / 2 ^ 54)"
proof -
  let ?A = "binary64_fused cabs"
  let ?g = "map (\<lambda>k. grid_point ?A (k div COLS) (k mod COLS)) [0..<ROWS * COLS]"
  have r: "fill_array ?A (replicate (ROWS * COLS) z) = Inr ?g"
    by (rule fill_array_result) simp
  have cell: "?g ! k = grid_point ?A (k div COLS) (k mod COLS)" if "k < ROWS * COLS" for k
    using that by simp
  have "?g ! (0 * COLS + (COLS - 1)) = grid_point ?A 0 99"
    by (simp only: cell [OF grid_corner_indices(2)] grid_corner_indices)
  then have v: "fst (?g ! (0 * COLS + (COLS - 1))) = 9007199254740991 / 18014398509481984"
    by (simp only: fused_last_col)
  have "(9007199254740991 :: rat) / 18014398509481984 = 1 / 2 - 1 / 2 ^ 54"
    by simp
  with v have "fst (?g ! (0 * COLS + (COLS - 1))) = 1 / 2 - 1 / 2 ^ 54"
    by (simp only:)
  with v show ?thesis
    by (simp only: r sum.case)
qed

end
